theory Spec2Isabelle
  imports Complex_Main "HOL-Library.Multiset"
begin

section \<open>Strings of the notebooks\<close>

text \<open>
  A Python \<open>str\<close> is modelled as a \<open>string\<close>: a list of characters, each character a
  code point below 256. The functions of \<open>str\<close> the notebooks call are written out:
  \<open>str.split()\<close> without arguments, \<open>sep.join(list)\<close>, \<open>str.replace(old, new)\<close> and
  the slice \<open>xs[a:b]\<close> with non-negative bounds.
\<close>

definition newline :: char where
  "newline = CHR 0x0A"

definition tab :: char where
  "tab = CHR 0x09"

definition space :: char where
  "space = CHR '' ''"

text \<open>
  \<open>str.isspace\<close> on one character: the white space code points below 256 are
  9 to 13, 28 to 31, 32, 133 and 160.
\<close>

definition isspace :: "char \<Rightarrow> bool" where
  "isspace c =
     (let n = (of_char c :: nat)
      in (9 \<le> n \<and> n \<le> 13) \<or> (28 \<le> n \<and> n \<le> 31) \<or> n = 32 \<or> n = 133 \<or> n = 160)"

text \<open>
  \<open>s.split()\<close>: runs of white space separate the words, leading and trailing white space
  is skipped. \<open>split_acc w cs\<close> scans \<open>cs\<close> with the word \<open>w\<close> read so far.
\<close>

fun split_acc :: "string \<Rightarrow> string \<Rightarrow> string list" where
  "split_acc w [] = (if w = [] then [] else [w])"
| "split_acc w (c # cs) =
     (if isspace c then (if w = [] then split_acc [] cs else w # split_acc [] cs)
      else split_acc (w @ [c]) cs)"

definition py_split :: "string \<Rightarrow> string list" where
  "py_split s = split_acc [] s"

text \<open>\<open>sep.join(ws)\<close>.\<close>

fun join :: "string \<Rightarrow> string list \<Rightarrow> string" where
  "join sep [] = []"
| "join sep [w] = w"
| "join sep (w # v # ws) = w @ sep @ join sep (v # ws)"

text \<open>\<open>xs[a:b]\<close> for \<open>0 \<le> a\<close> and \<open>0 \<le> b\<close>: empty when \<open>b \<le> a\<close>, cut at the length.\<close>

definition slice :: "'a list \<Rightarrow> nat \<Rightarrow> nat \<Rightarrow> 'a list" where
  "slice xs a b = take (b - a) (drop a xs)"

text \<open>
  \<open>s.replace(old, new)\<close>: the occurrences of \<open>old\<close> are replaced from the left, without
  overlap; an empty \<open>old\<close> matches before every character and at the end.
\<close>

function replace :: "string \<Rightarrow> string \<Rightarrow> string \<Rightarrow> string" where
  "replace old new [] = (if old = [] then new else [])"
| "replace old new (c # cs) =
     (if old = [] then new @ c # replace old new cs
      else if take (length old) (c # cs) = old
           then new @ replace old new (drop (length old) (c # cs))
           else c # replace old new cs)"
  by pat_completeness auto
termination
  by (relation "measure (\<lambda>(old, new, s). length s)") auto

text \<open>
  The exceptions of the notebooks: \<open>IndexError\<close> of a list index, \<open>ValueError\<close> of the
  tokenizer library, the failure of a call to the embedding or completion service, and
  \<open>BadCopyFileFormat\<close> of the store. \<open>xs[i]\<close> for \<open>0 \<le> i\<close>: an index past the end
  raises \<open>IndexError\<close>.
\<close>

datatype error = IndexError | ExternalServiceError | ValueError | BadCopyFileFormat

definition index :: "'a list \<Rightarrow> nat \<Rightarrow> error + 'a" where
  "index xs i = (if i < length xs then Inr (xs ! i) else Inl IndexError)"

section \<open>Token counter\<close>

text \<open>
  \<^verbatim>\<open>
  def num_tokens_from_string(string: str, encoding_name = "cl100k_base") -> int:
      if not string:
          return 0
      encoding = tiktoken.get_encoding(encoding_name)
      num_tokens = len(encoding.encode(string))
      return num_tokens
  \<close>
  The tokenizer library is outside the repository: \<open>get_encoding\<close> is a parameter, a
  function from the encoding name to the encoding, and an encoding maps a text to its
  list of tokens. The argument is \<open>None\<close> or a string.
\<close>

type_synonym encoding = "string \<Rightarrow> nat list"

definition cl100k_base :: string where
  "cl100k_base = ''cl100k_base''"

definition num_tokens_from_string :: "(string \<Rightarrow> encoding) \<Rightarrow> string option \<Rightarrow> string \<Rightarrow> int" where
  "num_tokens_from_string get_encoding string encoding_name =
     (if string = None \<or> string = Some [] then 0
      else let encoding = get_encoding encoding_name;
               num_tokens = int (length (encoding (the string)))
           in num_tokens)"

text \<open>
  \<open>num_tokens_from_string\<close> above is the counter where the tokenizer library returns.
  The library can also raise: \<open>tiktoken.get_encoding\<close> raises \<open>ValueError\<close> on a name it
  does not know, and \<open>encoding.encode\<close>, called with its default arguments as here,
  raises \<open>ValueError\<close> on a text that holds a special token. \<open>num_tokens_from_string_io\<close> is
  the same function with these failures kept and its effects written out: the state is
  the program's variables and the list of the calls made to the library so far.
\<close>

type_synonym raising_encoding = "string \<Rightarrow> error + nat list"

datatype lib_call = Get_encoding string | Encode string string

record 'g world =
  globals :: 'g
  calls :: "lib_call list"

definition num_tokens_from_string_io ::
  "(string \<Rightarrow> error + raising_encoding) \<Rightarrow> string option \<Rightarrow> string \<Rightarrow> 'g world
   \<Rightarrow> (error + int) \<times> 'g world" where
  "num_tokens_from_string_io get_encoding string encoding_name w =
     (if string = None \<or> string = Some [] then (Inr 0, w)
      else
        (let w1 = w\<lparr>calls := calls w @ [Get_encoding encoding_name]\<rparr> in
         case get_encoding encoding_name of
           Inl e \<Rightarrow> (Inl e, w1)
         | Inr encoding \<Rightarrow>
             (let w2 = w1\<lparr>calls := calls w1 @ [Encode encoding_name (the string)]\<rparr> in
              case encoding (the string) of
                Inl e \<Rightarrow> (Inl e, w2)
              | Inr toks \<Rightarrow> (let num_tokens = int (length toks) in (Inr num_tokens, w2)))))"

section \<open>Chunking cell\<close>

text \<open>
  A row of the data frame \<open>df\<close> has the columns title, content and url. The cell appends
  to \<open>new_list\<close> the Python lists \<open>[title, content, url, token_len]\<close>, here 4-tuples.
\<close>

record post =
  title :: string
  content :: string
  url :: string

type_synonym row = "string \<times> string \<times> string \<times> int"

definition row_content :: "row \<Rightarrow> string" where
  "row_content r = fst (snd r)"

definition row_tokens :: "row \<Rightarrow> int" where
  "row_tokens r = snd (snd (snd r))"

text \<open>
  \<open>ideal_size = int(ideal_token_size // (4/3))\<close>. The double nearest to \<open>4/3\<close> is
  \<open>6004799503160661 / 2^52\<close>, a little below \<open>4/3\<close>; the floor division of \<open>512\<close> by it
  is the floor of the quotient, which lies between 384 and 385.
\<close>

definition ideal_token_size :: nat where
  "ideal_token_size = 512"

definition four_thirds :: rat where
  "four_thirds = 6004799503160661 / 2 ^ 52"

definition ideal_size :: nat where
  "ideal_size = nat \<lfloor>rat_of_nat ideal_token_size / four_thirds\<rfloor>"

text \<open>
  The inner loop \<open>for j in range(chunks)\<close>, with the iterations left as first counter:
  \<^verbatim>\<open>
      if end > total_words:
          end = total_words
      new_content = words[start:end]
      new_content_string = ' '.join(new_content)
      new_content_token_len = num_tokens_from_string(new_content_string)
      if new_content_token_len > 0:
          new_list.append([df['title'][i], new_content_string, df['url'][i], new_content_token_len])
      start += ideal_size
      end += ideal_size
  \<close>
\<close>

fun chunk_loop ::
  "(string \<Rightarrow> encoding) \<Rightarrow> post \<Rightarrow> string list \<Rightarrow> nat \<Rightarrow> nat \<Rightarrow> nat \<Rightarrow> nat \<Rightarrow> row list \<Rightarrow> row list"
where
  "chunk_loop ge p words total_words 0 start end_idx new_list = new_list"
| "chunk_loop ge p words total_words (Suc k) start end_idx new_list =
     (let end1 = (if end_idx > total_words then total_words else end_idx);
          new_content = slice words start end1;
          new_content_string = join '' '' new_content;
          new_content_token_len = num_tokens_from_string ge (Some new_content_string) cl100k_base;
          new_list1 =
            (if new_content_token_len > 0
             then new_list @ [(title p, new_content_string, url p, new_content_token_len)]
             else new_list)
      in chunk_loop ge p words total_words k (start + ideal_size) (end1 + ideal_size) new_list1)"

text \<open>The body of the outer loop for one row of \<open>df\<close>.\<close>

definition chunk_row :: "(string \<Rightarrow> encoding) \<Rightarrow> post \<Rightarrow> row list \<Rightarrow> row list" where
  "chunk_row ge p new_list =
     (let text = content p;
          token_len = num_tokens_from_string ge (Some text) cl100k_base
      in if token_len \<le> 512 then new_list @ [(title p, content p, url p, token_len)]
         else
           (let start = 0;
                end_idx = ideal_size;
                words0 = py_split text;
                words = filter (\<lambda>x. x \<noteq> '' '') words0;
                total_words = length words;
                chunks0 = total_words div ideal_size;
                chunks = (if total_words mod ideal_size \<noteq> 0 then chunks0 + 1 else chunks0)
            in chunk_loop ge p words total_words chunks start end_idx new_list))"

text \<open>The whole cell: \<open>new_list = []\<close>, then the rows of \<open>df\<close> in order.\<close>

definition chunk_cell :: "(string \<Rightarrow> encoding) \<Rightarrow> post list \<Rightarrow> row list" where
  "chunk_cell ge df = foldl (\<lambda>new_list p. chunk_row ge p new_list) [] df"

text \<open>The rows one document adds.\<close>

definition chunk_document :: "(string \<Rightarrow> encoding) \<Rightarrow> post \<Rightarrow> row list" where
  "chunk_document ge p = chunk_row ge p []"

text \<open>
  The body of the outer loop without the filter: the same text with the line
  \<open>words = [x for x in words if x != ' ']\<close> left out (compared with \<open>chunk_row\<close> in C9).
\<close>

definition chunk_row_nofilter :: "(string \<Rightarrow> encoding) \<Rightarrow> post \<Rightarrow> row list \<Rightarrow> row list" where
  "chunk_row_nofilter ge p new_list =
     (let text = content p;
          token_len = num_tokens_from_string ge (Some text) cl100k_base
      in if token_len \<le> 512 then new_list @ [(title p, content p, url p, token_len)]
         else
           (let start = 0;
                end_idx = ideal_size;
                words = py_split text;
                total_words = length words;
                chunks0 = total_words div ideal_size;
                chunks = (if total_words mod ideal_size \<noteq> 0 then chunks0 + 1 else chunks0)
            in chunk_loop ge p words total_words chunks start end_idx new_list))"

section \<open>Embedding adapter\<close>

text \<open>
  \<^verbatim>\<open>
  def get_embeddings(text):
      response = openai_client.embeddings.create(
          model="text-embedding-3-small",
          input = text.replace("\n"," ")
      )
      return response.data[0].embedding
  \<close>
  The embedding service is the parameter \<open>create\<close>: it answers a request with a
  response or fails. Vectors are values of a type \<open>'v\<close>.
\<close>

record embedding_request =
  model :: string
  input :: string

record 'v embedding_item =
  embedding :: 'v

record 'v embedding_response =
  data :: "'v embedding_item list"

definition get_embeddings ::
  "(embedding_request \<Rightarrow> error + 'v embedding_response) \<Rightarrow> string \<Rightarrow> error + 'v" where
  "get_embeddings create text =
     (case create \<lparr>model = ''text-embedding-3-small'', input = replace [newline] '' '' text\<rparr> of
        Inl e \<Rightarrow> Inl e
      | Inr response \<Rightarrow>
          (case data response of
             [] \<Rightarrow> Inl IndexError
           | d # ds \<Rightarrow> Inr (embedding d)))"

section \<open>Retrieval and answer synthesis\<close>

text \<open>
  The table \<open>embeddings\<close> behind the connection is a list of stored rows. The query
  \<^verbatim>\<open>SELECT content FROM embeddings ORDER BY embedding <=> %s LIMIT 3\<close>
  orders the rows by their distance to the query vector and keeps the first three; the
  distance operator of the store is the parameter \<open>distance\<close>. \<open>fetchall\<close> returns
  1-tuples, here the content strings themselves.
\<close>

record 'v stored_row =
  row_title :: string
  row_url :: string
  row_text :: string
  tokens :: int
  row_embedding :: 'v

definition top3_rows ::
  "('v \<Rightarrow> 'v \<Rightarrow> 'd::linorder) \<Rightarrow> 'v \<Rightarrow> 'v stored_row list \<Rightarrow> 'v stored_row list" where
  "top3_rows distance query_embedding embeddings =
     take 3 (sort_key (\<lambda>r. distance (row_embedding r) query_embedding) embeddings)"

definition get_top3_similar_docs ::
  "('v \<Rightarrow> 'v \<Rightarrow> 'd::linorder) \<Rightarrow> 'v \<Rightarrow> 'v stored_row list \<Rightarrow> string list" where
  "get_top3_similar_docs distance query_embedding conn =
     (let top3_docs = map row_text (top3_rows distance query_embedding conn) in top3_docs)"

text \<open>
  \<^verbatim>\<open>
  def get_completion_from_messages(messages, model="gpt-4o", temperature=0, max_tokens=1000):
      response = openai_client.chat.completions.create(...)
      return response.choices[0].message.content
  \<close>
  The completion service is the parameter \<open>chat_create\<close>; a message is a pair of role
  and content, a choice of the response is its message content.
\<close>

record chat_request =
  chat_model :: string
  messages :: "(string \<times> string) list"
  temperature :: int
  max_tokens :: int

record chat_response =
  choices :: "string list"

definition get_completion_from_messages ::
  "(chat_request \<Rightarrow> error + chat_response) \<Rightarrow> (string \<times> string) list \<Rightarrow> string \<Rightarrow> int \<Rightarrow> int
   \<Rightarrow> error + string" where
  "get_completion_from_messages chat_create msgs mdl temp max_toks =
     (case chat_create \<lparr>chat_model = mdl, messages = msgs, temperature = temp, max_tokens = max_toks\<rparr> of
        Inl e \<Rightarrow> Inl e
      | Inr response \<Rightarrow>
          (case choices response of
             [] \<Rightarrow> Inl IndexError
           | c # cs \<Rightarrow> Inr c))"

definition system_message :: string where
  "system_message =
     [newline] @ ''    You are a friendly chatbot.     You can answer questions about timescaledb, its features and its use cases.     You respond in a concise, technically credible tone.     ''"

text \<open>
  \<open>process_input_with_retrieval\<close>: the three documents are read as
  \<open>related_docs[0][0]\<close>, \<open>related_docs[1][0]\<close> and \<open>related_docs[2][0]\<close> while the
  assistant message is built.
\<close>

definition process_input_with_retrieval ::
  "(embedding_request \<Rightarrow> error + 'v embedding_response) \<Rightarrow> (chat_request \<Rightarrow> error + chat_response)
   \<Rightarrow> ('v \<Rightarrow> 'v \<Rightarrow> 'd::linorder) \<Rightarrow> 'v stored_row list \<Rightarrow> string \<Rightarrow> error + string" where
  "process_input_with_retrieval create chat_create distance conn user_input =
     (let delimiter = replicate 3 (CHR 0x60) in
      case get_embeddings create user_input of
        Inl e \<Rightarrow> Inl e
      | Inr query_embedding \<Rightarrow>
          (let related_docs = get_top3_similar_docs distance query_embedding conn in
           case index related_docs 0 of
             Inl e \<Rightarrow> Inl e
           | Inr d0 \<Rightarrow>
               (case index related_docs 1 of
                  Inl e \<Rightarrow> Inl e
                | Inr d1 \<Rightarrow>
                    (case index related_docs 2 of
                       Inl e \<Rightarrow> Inl e
                     | Inr d2 \<Rightarrow>
                         (let msgs =
                            [(''system'', system_message),
                             (''user'', delimiter @ user_input @ delimiter),
                             (''assistant'',
                              ''Relevant Timescale case studies information: '' @ [newline] @ '' ''
                                @ d0 @ '' '' @ [newline] @ '' '' @ d1 @ '' '' @ d2)]
                          in get_completion_from_messages chat_create msgs ''gpt-4o'' 0 1000)))))"

text \<open>
  The second notebook joins the fetched rows, however many, into the context
  \<^verbatim>\<open>context = "\n\n".join([f"Chunk: {row[0]}" for row in rows])\<close>
  and sends \<^verbatim>\<open>f"Query: {query}\nContext: {context}"\<close> to the completion function of the store.
\<close>

definition context_join :: "string list \<Rightarrow> string" where
  "context_join rows = join [newline, newline] (map (\<lambda>row. ''Chunk: '' @ row) rows)"

definition generate_model_response ::
  "(string \<Rightarrow> error + string) \<Rightarrow> string \<Rightarrow> string \<Rightarrow> error + string" where
  "generate_model_response openai_chat_complete query context =
     openai_chat_complete (''Query: '' @ query @ [newline] @ ''Context: '' @ context)"

section \<open>Source table ingestion\<close>

text \<open>
  \<^verbatim>\<open>
  output = io.StringIO()
  for product in subset:
      output.write(f"{product['name']}\t{product['description']}\n")
  \<close>
  \<open>copy_payload\<close> is the buffer handed to \<open>copy_from\<close> with the separator tab.
\<close>

record product =
  name :: string
  description :: string

definition write_line :: "string \<Rightarrow> product \<Rightarrow> string" where
  "write_line output product = output @ name product @ [tab] @ description product @ [newline]"

definition copy_payload :: "product list \<Rightarrow> string" where
  "copy_payload products = foldl write_line [] products"

text \<open>
  The payload as a text. \<open>split_on sep s\<close> cuts \<open>s\<close> at every \<open>sep\<close>, as
  \<open>s.split(sep)\<close> does; the lines of a text are its pieces between newline characters,
  without the empty piece after a final newline, and the fields of a line are its pieces
  between tabs. A string is plain when it holds neither a tab nor a newline.
\<close>

fun split_on :: "char \<Rightarrow> string \<Rightarrow> string list" where
  "split_on sep [] = [[]]"
| "split_on sep (c # cs) =
     (if c = sep then [] # split_on sep cs
      else (case split_on sep cs of [] \<Rightarrow> [[c]] | w # ws \<Rightarrow> (c # w) # ws))"

definition payload_lines :: "string \<Rightarrow> string list" where
  "payload_lines payload =
     (let pieces = split_on newline payload
      in if last pieces = [] then butlast pieces else pieces)"

definition payload_fields :: "string \<Rightarrow> string list list" where
  "payload_fields payload = map (split_on tab) (payload_lines payload)"

definition plain :: "string \<Rightarrow> bool" where
  "plain s = list_all (\<lambda>c. c \<noteq> tab \<and> c \<noteq> newline) s"

text \<open>
  \<^verbatim>\<open>cur.copy_from(output, 'products', columns=('product', 'description'), sep='\t')\<close>
  runs the COPY of the store in its text format. That reader belongs to the store, not
  to the notebook; it is written out here for the payloads that hold no backslash, no
  carriage return and no NUL character, with the separator tab: there a row ends at
  every newline, a field at every tab, and a row whose number of fields is not the
  number of columns makes the whole call raise \<open>BadCopyFileFormat\<close>. On every other
  payload (escape sequences, the end marker, mixed line ends) the outcome is left open:
  \<open>Not_modelled\<close>.
\<close>

definition backslash :: char where
  "backslash = CHR 0x5C"

definition carriage_return :: char where
  "carriage_return = CHR 0x0D"

definition nul :: char where
  "nul = CHR 0x00"

definition simple :: "string \<Rightarrow> bool" where
  "simple s = list_all (\<lambda>c. c \<noteq> backslash \<and> c \<noteq> carriage_return \<and> c \<noteq> nul) s"

datatype copy_outcome = Inserted "string list list" | Raised error | Not_modelled

definition copy_from :: "string \<Rightarrow> string \<Rightarrow> string list \<Rightarrow> char \<Rightarrow> copy_outcome" where
  "copy_from file table columns sep =
     (if \<not> simple file \<or> sep \<noteq> tab then Not_modelled
      else let rows = map (split_on sep) (payload_lines file)
           in if list_all (\<lambda>r. length r = length columns) rows then Inserted rows
              else Raised BadCopyFileFormat)"

text \<open>
  \<^verbatim>\<open>
  def insert_subset_data(subset):
      with connect_db() as conn:
          with conn.cursor() as cur:
              output = io.StringIO()
              for product in subset:
                  output.write(f"{product['name']}\t{product['description']}\n")
              output.seek(0)
              cur.copy_from(output,'products', columns=('product', 'description'), sep='\t')
  \<close>
\<close>

definition insert_subset_data :: "product list \<Rightarrow> copy_outcome" where
  "insert_subset_data products =
     (let output = copy_payload products
      in copy_from output ''products'' [''product'', ''description''] tab)"

text \<open>Two products outside the precondition: a tab in the name, a newline in the description.\<close>

definition tabbed_product :: product where
  "tabbed_product = \<lparr>name = [CHR ''a'', tab, CHR ''b''], description = ''c''\<rparr>"

definition newlined_product :: product where
  "newlined_product = \<lparr>name = ''a'', description = [CHR ''b'', newline, CHR ''c'']\<rparr>"

definition shirt :: product where
  "shirt = \<lparr>name = ''Shirt'', description = ''Blue cotton''\<rparr>"

section \<open>Notions used in the statements\<close>

text \<open>A word: not empty and free of white space.\<close>

definition is_word :: "string \<Rightarrow> bool" where
  "is_word w = (w \<noteq> [] \<and> list_all (\<lambda>c. \<not> isspace c) w)"

text \<open>The token count of a text under the default encoding name.\<close>

definition ntok :: "(string \<Rightarrow> encoding) \<Rightarrow> string \<Rightarrow> int" where
  "ntok ge s = num_tokens_from_string ge (Some s) cl100k_base"

text \<open>The rows the loop appends for a list of word groups: the groups of zero tokens are left out.\<close>

definition emit_rows :: "(string \<Rightarrow> encoding) \<Rightarrow> post \<Rightarrow> string list list \<Rightarrow> row list" where
  "emit_rows ge p groups =
     map (\<lambda>g. (title p, join '' '' g, url p, ntok ge (join '' '' g)))
       (filter (\<lambda>g. ntok ge (join '' '' g) > 0) groups)"

text \<open>The \<open>i\<close>-th group of \<open>ideal_size\<close> words counted from \<open>start\<close>.\<close>

definition group_from :: "string list \<Rightarrow> nat \<Rightarrow> nat \<Rightarrow> string list" where
  "group_from words start i =
     slice words (start + i * ideal_size) (min (start + (i + 1) * ideal_size) (length words))"

text \<open>The number of iterations the cell computes from the number of words.\<close>

definition num_chunks :: "nat \<Rightarrow> nat" where
  "num_chunks n = (if n mod ideal_size \<noteq> 0 then n div ideal_size + 1 else n div ideal_size)"

section \<open>Concrete inputs\<close>

text \<open>An encoding with one token per character, and a service that returns its input as the vector.\<close>

definition char_encoding :: "string \<Rightarrow> encoding" where
  "char_encoding encoding_name s = map of_char s"

definition echo_service :: "embedding_request \<Rightarrow> error + string embedding_response" where
  "echo_service request = Inr \<lparr>data = [\<lparr>embedding = input request\<rparr>]\<rparr>"

definition long_post :: post where
  "long_post = \<lparr>title = ''t'', content = concat (replicate 2000 ''a ''), url = ''u''\<rparr>"

definition short_post :: post where
  "short_post = \<lparr>title = ''t'', content = ''hello world'', url = ''u''\<rparr>"






section \<open>Token counter: properties\<close>

lemma ideal_size_384: "ideal_size = 384"
  unfolding ideal_size_def ideal_token_size_def four_thirds_def by code_simp

lemma num_tokens_io_result:
  "fst (num_tokens_from_string_io ge s nm w) =
     (if s = None \<or> s = Some [] then Inr 0
      else case ge nm of
             Inl e \<Rightarrow> Inl e
           | Inr enc \<Rightarrow> (case enc (the s) of Inl e \<Rightarrow> Inl e | Inr toks \<Rightarrow> Inr (int (length toks))))"
  by (simp add: num_tokens_from_string_io_def Let_def split: sum.splits)


lemma num_tokens_io_agrees:
  "ge nm = Inr enc \<Longrightarrow> enc text = Inr (pure_ge nm text) \<Longrightarrow>
   fst (num_tokens_from_string_io ge (Some text) nm w) = Inr (num_tokens_from_string pure_ge (Some text) nm)"
  by (simp add: num_tokens_io_result num_tokens_from_string_def)




section \<open>Splitting and joining words\<close>

lemma isspace_space: "isspace CHR '' ''"
  by (simp add: isspace_def)

lemma split_acc_words:
  "list_all (\<lambda>c. \<not> isspace c) w \<Longrightarrow> list_all is_word (split_acc w cs)"
  by (induction cs arbitrary: w) (auto simp: is_word_def)

lemma py_split_words: "list_all is_word (py_split s)"
  by (simp add: py_split_def split_acc_words)

lemma is_word_not_space: "is_word w \<Longrightarrow> w \<noteq> '' ''"
  by (auto simp: is_word_def isspace_space)

lemma filter_words_id: "list_all is_word ws \<Longrightarrow> filter (\<lambda>x. x \<noteq> '' '') ws = ws"
  by (induction ws) (auto dest: is_word_not_space)

lemma py_split_filter: "filter (\<lambda>x. x \<noteq> '' '') (py_split s) = py_split s"
  by (rule filter_words_id [OF py_split_words])

lemma split_acc_append_word:
  "list_all (\<lambda>c. \<not> isspace c) v \<Longrightarrow> split_acc w (v @ cs) = split_acc (w @ v) cs"
  by (induction v arbitrary: w) auto

lemma split_acc_join: "list_all is_word ws \<Longrightarrow> split_acc [] (join '' '' ws) = ws"
proof (induction ws)
  case Nil
  then show ?case by simp
next
  case (Cons u us)
  from Cons.prems have uw: "is_word u" and us: "list_all is_word us"
    by simp_all
  from uw have u: "u \<noteq> []" "list_all (\<lambda>c. \<not> isspace c) u"
    by (simp_all add: is_word_def)
  show ?case
  proof (cases us)
    case Nil
    then show ?thesis
      using u split_acc_append_word [of u "[]" "[]"] by simp
  next
    case (Cons v vs)
    have "split_acc [] (join '' '' (u # us)) = split_acc u (CHR '' '' # join '' '' us)"
      using u split_acc_append_word [of u "[]" "CHR '' '' # join '' '' us"] Cons by simp
    also have "\<dots> = u # split_acc [] (join '' '' us)"
      using u by (simp add: isspace_space)
    also have "\<dots> = u # us"
      using Cons.IH us by simp
    finally show ?thesis .
  qed
qed

lemma py_split_join: "list_all is_word ws \<Longrightarrow> py_split (join '' '' ws) = ws"
  by (simp add: py_split_def split_acc_join)

lemma join_nonempty: "is_word w \<Longrightarrow> join sep (w # ws) \<noteq> []"
  by (cases ws) (simp_all add: is_word_def)

section \<open>The chunking loop\<close>

lemma emit_rows_Cons:
  "emit_rows ge p (g # gs) =
     (if ntok ge (join '' '' g) > 0 then [(title p, join '' '' g, url p, ntok ge (join '' '' g))] else [])
     @ emit_rows ge p gs"
  by (simp add: emit_rows_def)

lemma groups_Suc:
  "map (group_from words start) [0..<Suc k]
     = group_from words start 0 # map (group_from words (start + ideal_size)) [0..<k]"
proof -
  have "[0..<Suc k] = 0 # map Suc [0..<k]"
    by (simp add: upt_conv_Cons map_Suc_upt del: upt_Suc)
  then show ?thesis
    by (simp add: group_from_def comp_def add.assoc del: upt_Suc)
qed

lemma chunk_loop_rows:
  "end_idx = start + ideal_size \<or> (length words \<le> start \<and> length words \<le> end_idx) \<Longrightarrow>
   chunk_loop ge p words (length words) k start end_idx new_list
     = new_list @ emit_rows ge p (map (group_from words start) [0..<k])"
proof (induction k arbitrary: start end_idx new_list)
  case 0
  then show ?case by (simp add: emit_rows_def)
next
  case (Suc k)
  define end1 where "end1 = (if end_idx > length words then length words else end_idx)"
  have g: "slice words start end1 = group_from words start 0"
    using Suc.prems by (auto simp: end1_def group_from_def slice_def min_def)
  have inv: "end1 + ideal_size = (start + ideal_size) + ideal_size
             \<or> (length words \<le> start + ideal_size \<and> length words \<le> end1 + ideal_size)"
    using Suc.prems by (auto simp: end1_def)
  show ?case
    unfolding groups_Suc emit_rows_Cons
    using Suc.IH [OF inv] g
    by (simp add: Let_def end1_def ntok_def del: upt_Suc)
qed

lemma ideal_size_pos: "0 < ideal_size"
  by (simp add: ideal_size_384)

lemma num_chunks_ceiling: "int (num_chunks n) = \<lceil>real n / real ideal_size\<rceil>"
proof -
  have "\<lceil>real n / real ideal_size\<rceil> = \<lceil>real_of_int (int n) / real_of_int (int ideal_size)\<rceil>"
    by simp
  also have "\<dots> = - (- int n div int ideal_size)"
    by (rule ceiling_divide_eq_div)
  also have "\<dots> = int (num_chunks n)"
  proof -
    have "int n mod int ideal_size = int (n mod ideal_size)"
      by (simp add: zmod_int)
    moreover have "int n div int ideal_size = int (n div ideal_size)"
      by (simp add: zdiv_int)
    ultimately show ?thesis
      using ideal_size_pos by (simp add: num_chunks_def zdiv_zminus1_eq_if)
  qed
  finally show ?thesis by simp
qed

lemma num_chunks_cover: "n \<le> num_chunks n * ideal_size"
proof (cases "n mod ideal_size = 0")
  case True
  have "n = (n div ideal_size) * ideal_size + n mod ideal_size" by simp
  with True have "n = (n div ideal_size) * ideal_size" by simp
  with True show ?thesis by (simp add: num_chunks_def)
next
  case False
  have "n = (n div ideal_size) * ideal_size + n mod ideal_size" by simp
  moreover have "n mod ideal_size < ideal_size" using ideal_size_pos by simp
  ultimately have "n \<le> (n div ideal_size) * ideal_size + ideal_size" by linarith
  with False show ?thesis by (simp add: num_chunks_def)
qed

lemma num_chunks_tight: "i < num_chunks n \<Longrightarrow> i * ideal_size < n"
proof -
  assume i: "i < num_chunks n"
  have n: "n = (n div ideal_size) * ideal_size + n mod ideal_size" by simp
  show ?thesis
  proof (cases "n mod ideal_size = 0")
    case True
    with i have "i < n div ideal_size" by (simp add: num_chunks_def)
    then have "i * ideal_size < (n div ideal_size) * ideal_size"
      using ideal_size_pos by simp
    with n True show ?thesis by simp
  next
    case False
    with i have "i \<le> n div ideal_size" by (simp add: num_chunks_def)
    then have "i * ideal_size \<le> (n div ideal_size) * ideal_size" by simp
    moreover from False have "0 < n mod ideal_size" by simp
    ultimately show ?thesis using n by linarith
  qed
qed

lemma chunk_row_small:
  "num_tokens_from_string ge (Some (content p)) cl100k_base \<le> 512 \<Longrightarrow>
   chunk_row ge p new_list
     = new_list @ [(title p, content p, url p, num_tokens_from_string ge (Some (content p)) cl100k_base)]"
  by (simp add: chunk_row_def Let_def)

lemma chunk_row_large:
  "512 < num_tokens_from_string ge (Some (content p)) cl100k_base \<Longrightarrow>
   chunk_row ge p new_list
     = new_list @ emit_rows ge p
         (map (group_from (py_split (content p)) 0) [0..<num_chunks (length (py_split (content p)))])"
proof -
  assume big: "512 < num_tokens_from_string ge (Some (content p)) cl100k_base"
  have loop: "chunk_loop ge p (py_split (content p)) (length (py_split (content p)))
                (num_chunks (length (py_split (content p)))) 0 ideal_size new_list
              = new_list @ emit_rows ge p
                  (map (group_from (py_split (content p)) 0)
                     [0..<num_chunks (length (py_split (content p)))])"
    by (rule chunk_loop_rows) simp
  have "chunk_row ge p new_list
        = chunk_loop ge p (py_split (content p)) (length (py_split (content p)))
            (num_chunks (length (py_split (content p)))) 0 ideal_size new_list"
    using big unfolding chunk_row_def Let_def py_split_filter num_chunks_def
    by (simp only: if_not_P not_le if_True if_False)
  with loop show ?thesis by simp
qed

lemma slice_append: "a \<le> b \<Longrightarrow> b \<le> c \<Longrightarrow> slice xs a b @ slice xs b c = slice xs a c"
proof -
  assume ab: "a \<le> b" and bc: "b \<le> c"
  have "take (b - a) (drop a xs) @ take (c - b) (drop (b - a) (drop a xs))
        = take ((b - a) + (c - b)) (drop a xs)"
    by (simp add: take_add)
  with ab bc show ?thesis by (simp add: slice_def)
qed

lemma concat_groups:
  "concat (map (group_from words 0) [0..<k]) = slice words 0 (min (k * ideal_size) (length words))"
proof (induction k)
  case 0
  then show ?case by (simp add: slice_def)
next
  case (Suc k)
  have "slice words 0 (min (k * ideal_size) (length words))
          @ slice words (k * ideal_size) (min (Suc k * ideal_size) (length words))
        = slice words 0 (min (Suc k * ideal_size) (length words))"
  proof (cases "k * ideal_size \<le> length words")
    case True
    then show ?thesis
      using slice_append [of 0 "k * ideal_size" "min (Suc k * ideal_size) (length words)" words]
      by (simp add: min_def)
  next
    case False
    then show ?thesis by (simp add: slice_def min_def)
  qed
  with Suc show ?case by (simp add: group_from_def)
qed

lemma concat_all_groups:
  "concat (map (group_from words 0) [0..<num_chunks (length words)]) = words"
  using num_chunks_cover [of "length words"]
  by (simp add: concat_groups slice_def min_def)

lemma group_nonempty:
  "i < num_chunks (length words) \<Longrightarrow> group_from words 0 i \<noteq> []"
  using num_chunks_tight [of i "length words"] ideal_size_pos
  by (auto simp: group_from_def slice_def min_def)

lemma group_words:
  "list_all is_word words \<Longrightarrow> list_all is_word (group_from words start i)"
  unfolding group_from_def slice_def list_all_iff
  by (meson in_set_dropD in_set_takeD)

section \<open>The rows of one document\<close>

lemma length_concat_replicate: "length (concat (replicate n xs)) = n * length xs"
  by (induction n) simp_all

lemma py_split_replicate: "py_split (concat (replicate n ''a '')) = replicate n ''a''"
  by (induction n) (simp_all add: py_split_def isspace_def)

lemma long_post_tokens: "num_tokens_from_string char_encoding (Some (content long_post)) cl100k_base = 4000"
proof -
  have len: "length (content long_post) = 4000"
    by (simp add: long_post_def length_concat_replicate)
  then have "content long_post \<noteq> []"
    by auto
  with len show ?thesis
    by (simp add: num_tokens_from_string_def char_encoding_def)
qed

lemma py_split_in_set_word: "w \<in> set (py_split s) \<Longrightarrow> is_word w"
  using py_split_words [of s] by (simp add: list_all_iff)

lemma ntok_pos:
  "\<forall>s. s \<noteq> [] \<longrightarrow> ge cl100k_base s \<noteq> [] \<Longrightarrow> s \<noteq> [] \<Longrightarrow> 0 < ntok ge s"
  by (simp add: ntok_def num_tokens_from_string_def)

lemma emit_rows_all:
  "\<forall>g \<in> set groups. 0 < ntok ge (join '' '' g) \<Longrightarrow>
   emit_rows ge p groups = map (\<lambda>g. (title p, join '' '' g, url p, ntok ge (join '' '' g))) groups"
  by (simp add: emit_rows_def)

lemma group_join_nonempty:
  assumes "i < num_chunks (length (py_split s))"
  shows "join '' '' (group_from (py_split s) 0 i) \<noteq> []"
proof -
  from assms have ne: "group_from (py_split s) 0 i \<noteq> []"
    by (rule group_nonempty)
  have "list_all is_word (group_from (py_split s) 0 i)"
    by (rule group_words [OF py_split_words])
  with ne show ?thesis
    by (cases "group_from (py_split s) 0 i") (simp_all add: join_nonempty)
qed

lemma chunk_document_large:
  assumes enc: "\<forall>s. s \<noteq> [] \<longrightarrow> ge cl100k_base s \<noteq> []"
      and big: "512 < num_tokens_from_string ge (Some (content p)) cl100k_base"
  shows "chunk_document ge p
         = map (\<lambda>i. (title p, join '' '' (group_from (py_split (content p)) 0 i), url p,
                      ntok ge (join '' '' (group_from (py_split (content p)) 0 i))))
             [0..<num_chunks (length (py_split (content p)))]"
proof -
  have "\<forall>g \<in> set (map (group_from (py_split (content p)) 0)
                     [0..<num_chunks (length (py_split (content p)))]).
          0 < ntok ge (join '' '' g)"
    using ntok_pos [of ge, OF enc] group_join_nonempty by auto
  then show ?thesis
    using chunk_row_large [OF big, of "[]"]
    by (simp add: chunk_document_def emit_rows_all comp_def)
qed

lemma chunk_row_append: "chunk_row ge p new_list = new_list @ chunk_document ge p"
proof (cases "512 < num_tokens_from_string ge (Some (content p)) cl100k_base")
  case True
  then show ?thesis
    by (simp add: chunk_document_def chunk_row_large)
next
  case False
  then show ?thesis
    by (simp add: chunk_document_def chunk_row_small)
qed

lemma foldl_chunk_row:
  "foldl (\<lambda>new_list p. chunk_row ge p new_list) acc df = acc @ concat (map (chunk_document ge) df)"
proof (induction df arbitrary: acc)
  case Nil
  then show ?case by simp
next
  case (Cons p df)
  then show ?case
    by (simp add: chunk_row_append [of ge p acc])
qed

lemma chunk_cell_concat: "chunk_cell ge df = concat (map (chunk_document ge) df)"
  by (simp add: chunk_cell_def foldl_chunk_row)

lemma num_chunks_2000: "num_chunks 2000 = 6"
  by (simp add: num_chunks_def ideal_size_384)

lemma last_group_2000:
  "length words = 2000 \<Longrightarrow> group_from words 0 5 = drop 1920 words"
  by (simp add: group_from_def slice_def ideal_size_384)

text \<open>
  C1: when the content counts more than 512 tokens, the document adds
  \<open>ceil(total_words / ideal_size)\<close> rows, with \<open>ideal_size = 384\<close> and \<open>total_words\<close>
  the number of words of the white space split; a content of 2000 words adds 6 rows, and
  the last one holds the remaining 80 words, the words from position 1920 on. The
  encoding is one that gives every non-empty text at least one token, as a byte-pair
  encoding does.
\<close>

theorem chunk_count:
  assumes enc: "\<forall>s. s \<noteq> [] \<longrightarrow> get_encoding cl100k_base s \<noteq> []"
      and big: "512 < num_tokens_from_string get_encoding (Some (content p)) cl100k_base"
  shows "ideal_size = 384
     \<and> int (length (chunk_document get_encoding p))
         = \<lceil>real (length (py_split (content p))) / real ideal_size\<rceil>
     \<and> (length (py_split (content p)) = 2000 \<longrightarrow>
          length (chunk_document get_encoding p) = 6
          \<and> py_split (row_content (last (chunk_document get_encoding p)))
              = drop 1920 (py_split (content p))
          \<and> length (py_split (row_content (last (chunk_document get_encoding p)))) = 80)"
proof -
  let ?ws = "py_split (content p)"
  note doc = chunk_document_large [OF enc big]
  have len: "length (chunk_document get_encoding p) = num_chunks (length ?ws)"
    by (simp add: doc)
  have special: "length (chunk_document get_encoding p) = 6
          \<and> py_split (row_content (last (chunk_document get_encoding p))) = drop 1920 ?ws
          \<and> length (py_split (row_content (last (chunk_document get_encoding p)))) = 80"
    if n: "length ?ws = 2000"
  proof -
    have six: "[0..<num_chunks (length ?ws)] = [0..<5] @ [5]"
    proof -
      have k: "num_chunks (length ?ws) = Suc 5"
        by (simp add: n num_chunks_2000)
      have "[0..<Suc 5] = [0..<5] @ [5]"
        by (rule upt_Suc_append) simp
      with k show ?thesis by (simp only:)
    qed
    have "row_content (last (chunk_document get_encoding p)) = join '' '' (group_from ?ws 0 5)"
      unfolding doc six by (simp add: row_content_def)
    also have "group_from ?ws 0 5 = drop 1920 ?ws"
      using n by (rule last_group_2000)
    finally have c: "row_content (last (chunk_document get_encoding p)) = join '' '' (drop 1920 ?ws)" .
    have "list_all is_word (drop 1920 ?ws)"
      using py_split_words [of "content p"] unfolding list_all_iff by (meson in_set_dropD)
    then have "py_split (join '' '' (drop 1920 ?ws)) = drop 1920 ?ws"
      by (rule py_split_join)
    with c n len show ?thesis
      by (simp add: num_chunks_2000)
  qed
  have ceil: "int (length (chunk_document get_encoding p))
         = \<lceil>real (length ?ws) / real ideal_size\<rceil>"
    unfolding len by (rule num_chunks_ceiling)
  from ceil special ideal_size_384 show ?thesis
    by blast
qed

theorem chunk_count_witness:
  "512 < num_tokens_from_string char_encoding (Some (content long_post)) cl100k_base
   \<and> length (py_split (content long_post)) = 2000
   \<and> length (chunk_document char_encoding long_post) = 6
   \<and> length (py_split (row_content (last (chunk_document char_encoding long_post)))) = 80"
proof -
  have enc: "\<forall>s. s \<noteq> [] \<longrightarrow> char_encoding cl100k_base s \<noteq> []"
    by (simp add: char_encoding_def)
  have big: "512 < num_tokens_from_string char_encoding (Some (content long_post)) cl100k_base"
    by (simp add: long_post_tokens)
  have n: "length (py_split (content long_post)) = 2000"
    by (simp add: long_post_def py_split_replicate)
  from chunk_count [OF enc big] n big show ?thesis
    by blast
qed

text \<open>
  C2: when the content counts more than 512 tokens, the words of the rows added, in the
  order of the rows, are the words of the content; the row \<open>j\<close> is the join of
  \<open>words[j * ideal_size : min((j + 1) * ideal_size, total_words)]\<close>, so the slices
  follow each other without gap or overlap and the last one stops at \<open>total_words\<close>.
  The encoding is as in C1.
\<close>

theorem chunks_reconstruct_words:
  assumes enc: "\<forall>s. s \<noteq> [] \<longrightarrow> get_encoding cl100k_base s \<noteq> []"
      and big: "512 < num_tokens_from_string get_encoding (Some (content p)) cl100k_base"
  shows "concat (map (\<lambda>r. py_split (row_content r)) (chunk_document get_encoding p))
           = py_split (content p)
     \<and> map row_content (chunk_document get_encoding p)
         = map (\<lambda>j. join '' '' (slice (py_split (content p)) (j * ideal_size)
                  (min ((j + 1) * ideal_size) (length (py_split (content p))))))
             [0..<length (chunk_document get_encoding p)]"
proof -
  let ?ws = "py_split (content p)"
  note doc = chunk_document_large [OF enc big]
  have split_group: "py_split (join '' '' (group_from ?ws 0 i)) = group_from ?ws 0 i" for i
    by (rule py_split_join [OF group_words [OF py_split_words]])
  have "concat (map (\<lambda>r. py_split (row_content r)) (chunk_document get_encoding p))
        = concat (map (group_from ?ws 0) [0..<num_chunks (length ?ws)])"
    unfolding doc by (simp add: comp_def row_content_def split_group)
  also have "\<dots> = ?ws"
    by (rule concat_all_groups)
  finally have a: "concat (map (\<lambda>r. py_split (row_content r)) (chunk_document get_encoding p)) = ?ws" .
  have b: "map row_content (chunk_document get_encoding p)
         = map (\<lambda>j. join '' '' (slice ?ws (j * ideal_size) (min ((j + 1) * ideal_size) (length ?ws))))
             [0..<length (chunk_document get_encoding p)]"
    unfolding doc by (simp add: comp_def row_content_def group_from_def)
  from a b show ?thesis by simp
qed

theorem chunks_reconstruct_words_witness:
  "512 < num_tokens_from_string char_encoding (Some (content long_post)) cl100k_base
   \<and> concat (map (\<lambda>r. py_split (row_content r)) (chunk_document char_encoding long_post))
       = replicate 2000 ''a''"
proof -
  have enc: "\<forall>s. s \<noteq> [] \<longrightarrow> char_encoding cl100k_base s \<noteq> []"
    by (simp add: char_encoding_def)
  have big: "512 < num_tokens_from_string char_encoding (Some (content long_post)) cl100k_base"
    by (simp add: long_post_tokens)
  have ws: "py_split (content long_post) = replicate 2000 ''a''"
    by (simp add: long_post_def py_split_replicate)
  from chunks_reconstruct_words [OF enc big] ws big show ?thesis
    by simp
qed

text \<open>
  C3: when the content counts at most 512 tokens, the document adds exactly one row: its
  title, the content unchanged, its url and the token count measured.
\<close>

theorem small_content_single_chunk:
  assumes small: "num_tokens_from_string get_encoding (Some (content p)) cl100k_base \<le> 512"
  shows "chunk_document get_encoding p
           = [(title p, content p, url p,
               num_tokens_from_string get_encoding (Some (content p)) cl100k_base)]
     \<and> chunk_row get_encoding p new_list
           = new_list @ [(title p, content p, url p,
               num_tokens_from_string get_encoding (Some (content p)) cl100k_base)]"
  using small by (simp add: chunk_document_def chunk_row_small)

theorem small_content_single_chunk_witness:
  "num_tokens_from_string char_encoding (Some (content short_post)) cl100k_base \<le> 512
   \<and> chunk_document char_encoding short_post = [(''t'', ''hello world'', ''u'', 11)]"
proof -
  have n: "num_tokens_from_string char_encoding (Some (content short_post)) cl100k_base = 11"
    by (simp add: num_tokens_from_string_def char_encoding_def short_post_def)
  then have small: "num_tokens_from_string char_encoding (Some (content short_post)) cl100k_base \<le> 512"
    by simp
  from small_content_single_chunk [OF small, of "[]"] n small show ?thesis
    by (simp add: short_post_def)
qed

lemma emit_rows_positive:
  "r \<in> set (emit_rows ge p groups) \<Longrightarrow>
   0 < row_tokens r \<and> row_tokens r = num_tokens_from_string ge (Some (row_content r)) cl100k_base"
  by (auto simp: emit_rows_def row_tokens_def row_content_def ntok_def)

text \<open>
  C6: when the content counts more than 512 tokens, every row the document adds has a
  token count above zero, and that count is the token count of the row's content.
\<close>

theorem emitted_chunks_positive:
  assumes big: "512 < num_tokens_from_string get_encoding (Some (content p)) cl100k_base"
  shows "\<forall>r \<in> set (chunk_document get_encoding p).
           0 < row_tokens r
           \<and> row_tokens r = num_tokens_from_string get_encoding (Some (row_content r)) cl100k_base"
proof
  fix r
  assume "r \<in> set (chunk_document get_encoding p)"
  then have "r \<in> set (emit_rows get_encoding p
      (map (group_from (py_split (content p)) 0) [0..<num_chunks (length (py_split (content p)))]))"
    using chunk_row_large [OF big, of "[]"] by (simp add: chunk_document_def)
  then show "0 < row_tokens r
      \<and> row_tokens r = num_tokens_from_string get_encoding (Some (row_content r)) cl100k_base"
    by (rule emit_rows_positive)
qed

theorem emitted_chunks_positive_witness:
  "512 < num_tokens_from_string char_encoding (Some (content long_post)) cl100k_base
   \<and> chunk_document char_encoding long_post \<noteq> []
   \<and> 0 < row_tokens (last (chunk_document char_encoding long_post))"
proof -
  have enc: "\<forall>s. s \<noteq> [] \<longrightarrow> char_encoding cl100k_base s \<noteq> []"
    by (simp add: char_encoding_def)
  have big: "512 < num_tokens_from_string char_encoding (Some (content long_post)) cl100k_base"
    by (simp add: long_post_tokens)
  have "length (chunk_document char_encoding long_post) = 6"
    unfolding chunk_document_large [OF enc big]
    by (simp add: long_post_def py_split_replicate num_chunks_2000)
  then have ne: "chunk_document char_encoding long_post \<noteq> []"
    by auto
  then have "last (chunk_document char_encoding long_post) \<in> set (chunk_document char_encoding long_post)"
    by simp
  with emitted_chunks_positive [OF big] ne big show ?thesis
    by blast
qed

text \<open>
  C9: the filter \<open>[x for x in words if x != ' ']\<close> changes nothing: the white space
  split yields neither the string of one space nor the empty string, and the cell
  without the filter line is the same function.
\<close>

theorem empty_token_filter_noop:
  "filter (\<lambda>x. x \<noteq> '' '') (py_split s) = py_split s
   \<and> '' '' \<notin> set (py_split s)
   \<and> [] \<notin> set (py_split s)
   \<and> chunk_row_nofilter = chunk_row"
proof -
  have a: "'' '' \<notin> set (py_split s)"
    using py_split_in_set_word [of "'' ''" s] is_word_not_space by blast
  have b: "[] \<notin> set (py_split s)"
    using py_split_in_set_word [of "[]" s] by (auto simp: is_word_def)
  have c: "chunk_row_nofilter ge p new_list = chunk_row ge p new_list" for ge p new_list
    unfolding chunk_row_nofilter_def chunk_row_def Let_def py_split_filter by (rule refl)
  then have "chunk_row_nofilter = chunk_row"
    by (intro ext)
  with a b py_split_filter show ?thesis
    by simp
qed

section \<open>Embedding adapter: properties\<close>

lemma replace_newline:
  "replace [newline] '' '' text = map (\<lambda>c. if c = newline then space else c) text"
  by (induction "text") (simp_all add: space_def)

text \<open>
  C7: the request the adapter sends holds the text with every newline replaced by a
  space; when the service answers that request with a response of one embedding, the
  adapter returns that embedding.
\<close>

theorem get_embeddings_normalises:
  assumes "create \<lparr>model = ''text-embedding-3-small'',
                    input = map (\<lambda>c. if c = newline then space else c) text\<rparr> = Inr response"
      and "data response = [d]"
  shows "get_embeddings create text = Inr (embedding d)
     \<and> replace [newline] '' '' text = map (\<lambda>c. if c = newline then space else c) text"
  using assms by (simp add: get_embeddings_def replace_newline)

theorem get_embeddings_normalises_witness:
  "echo_service \<lparr>model = ''text-embedding-3-small'',
      input = map (\<lambda>c. if c = newline then space else c) [CHR ''a'', newline, CHR ''b'']\<rparr>
     = Inr \<lparr>data = [\<lparr>embedding = ''a b''\<rparr>]\<rparr>
   \<and> get_embeddings echo_service [CHR ''a'', newline, CHR ''b''] = Inr ''a b''"
proof -
  have a: "echo_service \<lparr>model = ''text-embedding-3-small'',
      input = map (\<lambda>c. if c = newline then space else c) [CHR ''a'', newline, CHR ''b'']\<rparr>
     = Inr \<lparr>data = [\<lparr>embedding = ''a b''\<rparr>]\<rparr>"
    by (simp add: echo_service_def newline_def space_def)
  have b: "data \<lparr>data = [\<lparr>embedding = ''a b''\<rparr>]\<rparr> = [\<lparr>embedding = ''a b''\<rparr>]"
    by simp
  from get_embeddings_normalises [of echo_service "[CHR ''a'', newline, CHR ''b'']"
      "\<lparr>data = [\<lparr>embedding = ''a b''\<rparr>]\<rparr>" "\<lparr>embedding = ''a b''\<rparr>", OF a b] a
  show ?thesis
    by simp
qed

section \<open>Retrieval and answer synthesis: properties\<close>

text \<open>
  C5: the retrieval returns \<open>min(3, n)\<close> contents for a store of \<open>n\<close> rows: three when
  there are at least three, fewer otherwise, and the empty list, not an error, for the
  empty store. The contents are those of rows of the store, in the order of
  non-decreasing distance to the query vector.
\<close>

theorem top3_retrieval:
  "length (get_top3_similar_docs distance q conn) = min 3 (length conn)
   \<and> get_top3_similar_docs distance q [] = []
   \<and> get_top3_similar_docs distance q conn = map row_text (top3_rows distance q conn)
   \<and> sorted (map (\<lambda>r. distance (row_embedding r) q) (top3_rows distance q conn))
   \<and> mset (top3_rows distance q conn) \<subseteq># mset conn"
proof -
  let ?key = "\<lambda>r. distance (row_embedding r) q"
  have a: "length (get_top3_similar_docs distance q conn) = min 3 (length conn)"
    by (simp add: get_top3_similar_docs_def top3_rows_def min_def)
  have b: "get_top3_similar_docs distance q [] = []"
    by (simp add: get_top3_similar_docs_def top3_rows_def)
  have "sorted (map ?key (sort_key ?key conn))"
    by (rule sorted_sort_key)
  then have c: "sorted (map ?key (top3_rows distance q conn))"
    unfolding top3_rows_def take_map [symmetric] by (rule sorted_wrt_take)
  have "mset (take 3 (sort_key ?key conn)) \<subseteq># mset (sort_key ?key conn)"
    by (metis append_take_drop_id mset_append mset_subset_eq_add_left)
  then have d: "mset (top3_rows distance q conn) \<subseteq># mset conn"
    by (simp add: top3_rows_def)
  from a b c d show ?thesis
    by (simp add: get_top3_similar_docs_def)
qed

text \<open>
  C4, on \<open>process_input_with_retrieval\<close>: with a store of zero, one or two rows the
  function ends in \<open>IndexError\<close> as soon as the embedding of the query is there, and the
  completion service is not asked; so for the empty store and the service that always
  answers.
\<close>

theorem retrieval_short_store_raises:
  "process_input_with_retrieval create chat_create distance [] user_input
     = (case get_embeddings create user_input of Inl e \<Rightarrow> Inl e | Inr v \<Rightarrow> Inl IndexError)
   \<and> process_input_with_retrieval create chat_create distance [r1] user_input
     = (case get_embeddings create user_input of Inl e \<Rightarrow> Inl e | Inr v \<Rightarrow> Inl IndexError)
   \<and> process_input_with_retrieval create chat_create distance [r1, r2] user_input
     = (case get_embeddings create user_input of Inl e \<Rightarrow> Inl e | Inr v \<Rightarrow> Inl IndexError)
   \<and> process_input_with_retrieval echo_service chat_create distance [] ''How is Timescale used in IoT?''
     = Inl IndexError"
  by (simp add: process_input_with_retrieval_def index_def get_top3_similar_docs_def top3_rows_def get_embeddings_def echo_service_def split: sum.splits)

text \<open>
  The second notebook with no row fetched: the context is the empty string and the
  completion is asked with it.
\<close>

lemma pgai_empty_context:
  "context_join [] = []
   \<and> generate_model_response openai_chat_complete query (context_join [])
       = openai_chat_complete (''Query: '' @ query @ [newline] @ ''Context: '')"
  by (simp add: context_join_def generate_model_response_def)

section \<open>Source table ingestion: properties\<close>

lemma foldl_write_line:
  "foldl write_line out products
     = out @ concat (map (\<lambda>p. name p @ [tab] @ description p @ [newline]) products)"
  by (induction products arbitrary: out) (simp_all add: write_line_def)

lemma copy_payload_concat:
  "copy_payload products = concat (map (\<lambda>p. name p @ [tab] @ description p @ [newline]) products)"
  by (simp add: copy_payload_def foldl_write_line)

lemma copy_payload_Cons:
  "copy_payload (p # ps) = name p @ tab # description p @ newline # copy_payload ps"
  by (simp add: copy_payload_concat)

lemma split_on_nonempty: "split_on sep s \<noteq> []"
  by (induction s) (auto split: list.splits)

lemma split_on_prefix:
  "sep \<notin> set u \<Longrightarrow> split_on sep (u @ sep # rest) = u # split_on sep rest"
  by (induction u) (auto split: list.splits)

lemma split_on_none: "sep \<notin> set u \<Longrightarrow> split_on sep u = [u]"
  by (induction u) (auto split: list.splits)

lemma length_split_on: "length (split_on sep s) = Suc (length (filter (\<lambda>c. c = sep) s))"
proof (induction s)
  case Nil
  then show ?case by simp
next
  case (Cons c cs)
  obtain w ws where "split_on sep cs = w # ws"
    using split_on_nonempty [of sep cs] by (cases "split_on sep cs") auto
  with Cons show ?case by auto
qed

lemma last_split_on_snoc: "last (split_on sep (s @ [sep])) = []"
proof (induction s)
  case Nil
  then show ?case by simp
next
  case (Cons c cs)
  obtain w ws where ws: "split_on sep (cs @ [sep]) = w # ws"
    using split_on_nonempty [of sep "cs @ [sep]"] by (cases "split_on sep (cs @ [sep])") auto
  have "ws \<noteq> []"
    using length_split_on [of sep "cs @ [sep]"] ws by auto
  with Cons ws show ?case by auto
qed

lemma split_on_pieces: "w \<in> set (split_on sep s) \<Longrightarrow> sep \<notin> set w \<and> set w \<subseteq> set s"
proof (induction s arbitrary: w)
  case Nil
  then show ?case by simp
next
  case (Cons c cs)
  show ?case
  proof (cases "c = sep")
    case True
    with Cons show ?thesis by auto
  next
    case False
    obtain v vs where vs: "split_on sep cs = v # vs"
      using split_on_nonempty [of sep cs] by (cases "split_on sep cs") auto
    with False Cons.prems have "w = c # v \<or> w \<in> set vs" by simp
    then show ?thesis
    proof
      assume "w = c # v"
      moreover have "sep \<notin> set v \<and> set v \<subseteq> set cs"
        using Cons.IH [of v] vs by simp
      ultimately show ?thesis using False by auto
    next
      assume "w \<in> set vs"
      then have "sep \<notin> set w \<and> set w \<subseteq> set cs"
        using Cons.IH [of w] vs by simp
      then show ?thesis by auto
    qed
  qed
qed

lemma payload_lines_Nil: "payload_lines [] = []"
  by (simp add: payload_lines_def)

lemma payload_lines_Cons:
  "newline \<notin> set l \<Longrightarrow> payload_lines (l @ newline # rest) = l # payload_lines rest"
proof -
  assume l: "newline \<notin> set l"
  obtain w ws where ws: "split_on newline rest = w # ws"
    using split_on_nonempty [of newline rest] by (cases "split_on newline rest") auto
  show ?thesis
    using l ws by (simp add: payload_lines_def split_on_prefix Let_def)
qed

lemma payload_lines_subset: "set (payload_lines s) \<subseteq> set (split_on newline s)"
  by (auto simp: payload_lines_def Let_def dest: in_set_butlastD)

lemma length_payload_lines_snoc:
  "length (payload_lines (s @ [newline])) = Suc (length (filter (\<lambda>c. c = newline) s))"
  by (simp add: payload_lines_def Let_def last_split_on_snoc length_split_on)

lemma payload_lines_plain:
  "list_all (\<lambda>p. newline \<notin> set (name p) \<and> newline \<notin> set (description p)) products \<Longrightarrow>
   payload_lines (copy_payload products) = map (\<lambda>p. name p @ tab # description p) products"
proof (induction products)
  case Nil
  then show ?case by (simp add: copy_payload_def payload_lines_Nil)
next
  case (Cons p ps)
  let ?l = "name p @ tab # description p"
  from Cons.prems have nl: "newline \<notin> set ?l"
    by (simp add: tab_def newline_def)
  have "copy_payload (p # ps) = ?l @ newline # copy_payload ps"
    by (simp add: copy_payload_Cons)
  then have "payload_lines (copy_payload (p # ps)) = ?l # payload_lines (copy_payload ps)"
    using payload_lines_Cons [OF nl] by simp
  with Cons show ?case by simp
qed

lemma count_newline_payload:
  "length (filter (\<lambda>c. c = newline) (copy_payload products))
     = length products
       + sum_list (map (\<lambda>p. length (filter (\<lambda>c. c = newline) (name p))
                          + length (filter (\<lambda>c. c = newline) (description p))) products)"
proof (induction products)
  case Nil
  then show ?case by (simp add: copy_payload_def)
next
  case (Cons p ps)
  then show ?case by (simp add: copy_payload_Cons tab_def newline_def)
qed

lemma length_payload_lines:
  "length (payload_lines (copy_payload products))
     = length products
       + sum_list (map (\<lambda>p. length (filter (\<lambda>c. c = newline) (name p))
                          + length (filter (\<lambda>c. c = newline) (description p))) products)"
proof (cases products rule: rev_cases)
  case Nil
  then show ?thesis by (simp add: copy_payload_def payload_lines_Nil)
next
  case (snoc qs q)
  define s where "s = copy_payload qs @ name q @ [tab] @ description q"
  have p: "copy_payload products = s @ [newline]"
    by (simp add: snoc s_def copy_payload_concat)
  have "length (payload_lines (copy_payload products)) = Suc (length (filter (\<lambda>c. c = newline) s))"
    unfolding p by (rule length_payload_lines_snoc)
  also have "\<dots> = length (filter (\<lambda>c. c = newline) (copy_payload products))"
    by (simp add: p)
  finally show ?thesis
    by (simp only: count_newline_payload)
qed

lemma filter_empty_iff: "(length (filter P xs) = 0) = list_all (\<lambda>x. \<not> P x) xs"
  by (induction xs) simp_all

lemma lines_count_newline_free:
  "length (payload_lines (copy_payload products)) = length products \<Longrightarrow>
   list_all (\<lambda>p. newline \<notin> set (name p) \<and> newline \<notin> set (description p)) products"
proof -
  assume "length (payload_lines (copy_payload products)) = length products"
  then have z: "sum_list (map (\<lambda>p. length (filter (\<lambda>c. c = newline) (name p))
                          + length (filter (\<lambda>c. c = newline) (description p))) products) = 0"
    by (simp add: length_payload_lines)
  have "length (filter (\<lambda>c. c = newline) (name p)) = 0
        \<and> length (filter (\<lambda>c. c = newline) (description p)) = 0" if "p \<in> set products" for p
    using z that by (auto simp: sum_list_eq_0_iff)
  then show ?thesis
    by (auto simp: list_all_iff filter_empty_conv)
qed

lemma two_fields_tab_free:
  "length (split_on tab (n @ tab # d)) = 2 \<Longrightarrow> tab \<notin> set n \<and> tab \<notin> set d"
  by (auto simp: length_split_on filter_empty_conv)

lemma payload_fields_plain:
  "list_all (\<lambda>p. plain (name p) \<and> plain (description p)) products \<Longrightarrow>
   payload_fields (copy_payload products) = map (\<lambda>p. [name p, description p]) products"
proof -
  assume pl: "list_all (\<lambda>p. plain (name p) \<and> plain (description p)) products"
  then have "list_all (\<lambda>p. newline \<notin> set (name p) \<and> newline \<notin> set (description p)) products"
    by (auto simp: plain_def list_all_iff)
  then have lines: "payload_lines (copy_payload products) = map (\<lambda>p. name p @ tab # description p) products"
    by (rule payload_lines_plain)
  have "split_on tab (name p @ tab # description p) = [name p, description p]"
    if "p \<in> set products" for p
  proof -
    from pl that have "tab \<notin> set (name p)" "tab \<notin> set (description p)"
      by (auto simp: plain_def list_all_iff)
    then show ?thesis by (simp add: split_on_prefix split_on_none)
  qed
  then show ?thesis
    by (simp add: payload_fields_def lines)
qed

lemma payload_fields_are_plain:
  "f \<in> set row \<Longrightarrow> row \<in> set (payload_fields payload) \<Longrightarrow> plain f"
proof -
  assume f: "f \<in> set row" and "row \<in> set (payload_fields payload)"
  then obtain l where l: "l \<in> set (payload_lines payload)" and row: "row = split_on tab l"
    by (auto simp: payload_fields_def)
  from l have "l \<in> set (split_on newline payload)"
    using payload_lines_subset by blast
  then have "newline \<notin> set l"
    using split_on_pieces by blast
  moreover from f row have "tab \<notin> set f \<and> set f \<subseteq> set l"
    using split_on_pieces by blast
  ultimately show "plain f"
    by (auto simp: plain_def list_all_iff)
qed

lemma aligned_fields_iff:
  "(payload_fields (copy_payload products) = map (\<lambda>p. [name p, description p]) products)
     = list_all (\<lambda>p. plain (name p) \<and> plain (description p)) products"
proof
  assume eq: "payload_fields (copy_payload products) = map (\<lambda>p. [name p, description p]) products"
  have "plain (name p) \<and> plain (description p)" if p: "p \<in> set products" for p
  proof -
    from p eq have "[name p, description p] \<in> set (payload_fields (copy_payload products))"
      by simp
    then show ?thesis
      using payload_fields_are_plain [of _ "[name p, description p]" "copy_payload products"] by simp
  qed
  then show "list_all (\<lambda>p. plain (name p) \<and> plain (description p)) products"
    by (simp add: list_all_iff)
next
  assume "list_all (\<lambda>p. plain (name p) \<and> plain (description p)) products"
  then show "payload_fields (copy_payload products) = map (\<lambda>p. [name p, description p]) products"
    by (rule payload_fields_plain)
qed

lemma aligned_counts_iff:
  "(length (payload_lines (copy_payload products)) = length products
     \<and> list_all (\<lambda>l. length (split_on tab l) = 2) (payload_lines (copy_payload products)))
   = list_all (\<lambda>p. plain (name p) \<and> plain (description p)) products"
proof
  assume a: "length (payload_lines (copy_payload products)) = length products
     \<and> list_all (\<lambda>l. length (split_on tab l) = 2) (payload_lines (copy_payload products))"
  then have nl: "list_all (\<lambda>p. newline \<notin> set (name p) \<and> newline \<notin> set (description p)) products"
    using lines_count_newline_free by blast
  then have lines: "payload_lines (copy_payload products) = map (\<lambda>p. name p @ tab # description p) products"
    by (rule payload_lines_plain)
  have "plain (name p) \<and> plain (description p)" if p: "p \<in> set products" for p
  proof -
    from a lines p have "length (split_on tab (name p @ tab # description p)) = 2"
      by (auto simp: list_all_iff)
    then have "tab \<notin> set (name p) \<and> tab \<notin> set (description p)"
      by (rule two_fields_tab_free)
    moreover from nl p have "newline \<notin> set (name p) \<and> newline \<notin> set (description p)"
      by (auto simp: list_all_iff)
    ultimately show ?thesis
      by (auto simp: plain_def list_all_iff)
  qed
  then show "list_all (\<lambda>p. plain (name p) \<and> plain (description p)) products"
    by (simp add: list_all_iff)
next
  assume pl: "list_all (\<lambda>p. plain (name p) \<and> plain (description p)) products"
  then have "list_all (\<lambda>p. newline \<notin> set (name p) \<and> newline \<notin> set (description p)) products"
    by (auto simp: plain_def list_all_iff)
  then have lines: "payload_lines (copy_payload products) = map (\<lambda>p. name p @ tab # description p) products"
    by (rule payload_lines_plain)
  have "length (split_on tab (name p @ tab # description p)) = 2" if "p \<in> set products" for p
  proof -
    from pl that have "tab \<notin> set (name p)" "tab \<notin> set (description p)"
      by (auto simp: plain_def list_all_iff)
    then show ?thesis by (simp add: split_on_prefix split_on_none)
  qed
  then show "length (payload_lines (copy_payload products)) = length products
     \<and> list_all (\<lambda>l. length (split_on tab l) = 2) (payload_lines (copy_payload products))"
    by (simp add: lines list_all_iff)
qed

lemma simple_payload:
  "simple (copy_payload products) = list_all (\<lambda>p. simple (name p) \<and> simple (description p)) products"
proof (induction products)
  case Nil
  then show ?case by (simp add: copy_payload_def simple_def)
next
  case (Cons p ps)
  have "simple (copy_payload (p # ps))
        = (simple (name p) \<and> simple (description p) \<and> simple (copy_payload ps))"
    by (auto simp: copy_payload_Cons simple_def tab_def newline_def backslash_def
        carriage_return_def nul_def)
  with Cons show ?case by simp
qed

lemma insert_subset_data_simple:
  "list_all (\<lambda>p. simple (name p) \<and> simple (description p)) products \<Longrightarrow>
   insert_subset_data products
     = (if list_all (\<lambda>r. length r = 2) (payload_fields (copy_payload products))
        then Inserted (payload_fields (copy_payload products))
        else Raised BadCopyFileFormat)"
  by (simp add: insert_subset_data_def copy_from_def simple_payload payload_fields_def Let_def
      numeral_2_eq_2)

lemma insert_subset_data_aligned:
  assumes "list_all (\<lambda>p. simple (name p) \<and> simple (description p)) products"
  shows "(insert_subset_data products = Inserted (map (\<lambda>p. [name p, description p]) products))
     = list_all (\<lambda>p. plain (name p) \<and> plain (description p)) products"
proof
  assume "insert_subset_data products = Inserted (map (\<lambda>p. [name p, description p]) products)"
  then have "payload_fields (copy_payload products) = map (\<lambda>p. [name p, description p]) products"
    unfolding insert_subset_data_simple [OF assms] by (simp split: if_splits)
  then show "list_all (\<lambda>p. plain (name p) \<and> plain (description p)) products"
    by (simp add: aligned_fields_iff)
next
  assume "list_all (\<lambda>p. plain (name p) \<and> plain (description p)) products"
  then have "payload_fields (copy_payload products) = map (\<lambda>p. [name p, description p]) products"
    by (rule payload_fields_plain)
  then show "insert_subset_data products = Inserted (map (\<lambda>p. [name p, description p]) products)"
    unfolding insert_subset_data_simple [OF assms] by (simp add: list_all_iff)
qed

lemma tabbed_fields: "payload_fields (copy_payload [tabbed_product]) = [[''a'', ''b'', ''c'']]"
  by (simp add: payload_fields_def payload_lines_def copy_payload_def write_line_def
      tabbed_product_def tab_def newline_def)

lemma newlined_fields: "payload_fields (copy_payload [newlined_product]) = [[''a'', ''b''], [''c'']]"
  by (simp add: payload_fields_def payload_lines_def copy_payload_def write_line_def
      newlined_product_def tab_def newline_def)

lemma tabbed_raises: "insert_subset_data [tabbed_product] = Raised BadCopyFileFormat"
proof -
  have "list_all (\<lambda>p. simple (name p) \<and> simple (description p)) [tabbed_product]"
    by (simp add: simple_def tabbed_product_def tab_def backslash_def carriage_return_def nul_def)
  then show ?thesis
    by (simp add: insert_subset_data_simple tabbed_fields)
qed

lemma newlined_raises: "insert_subset_data [newlined_product] = Raised BadCopyFileFormat"
proof -
  have "list_all (\<lambda>p. simple (name p) \<and> simple (description p)) [newlined_product]"
    by (simp add: simple_def newlined_product_def newline_def backslash_def carriage_return_def
        nul_def)
  then show ?thesis
    by (simp add: insert_subset_data_simple newlined_fields)
qed

text \<open>
  C10: the payload is the text \<open>name, tab, description, newline\<close> of every product in
  turn. If this text has exactly one line per product and every line has exactly two
  tab-separated fields, then no name and no description holds a tab or a newline. With a
  tab in a name the one line has three fields, with a newline in a description there
  are two lines, and for both the call to the store raises \<open>BadCopyFileFormat\<close>. Where no
  name and no description holds a backslash, a carriage return or a NUL character, the
  converse holds too: the text has one line of two fields per product, and the store
  receives the rows of names and descriptions, exactly when none holds a tab or a
  newline.
\<close>

theorem copy_payload_alignment:
  "copy_payload products = concat (map (\<lambda>p. name p @ [tab] @ description p @ [newline]) products)
   \<and> (length (payload_lines (copy_payload products)) = length products
        \<and> list_all (\<lambda>l. length (split_on tab l) = 2) (payload_lines (copy_payload products))
       \<longrightarrow> list_all (\<lambda>p. plain (name p) \<and> plain (description p)) products)
   \<and> payload_fields (copy_payload [tabbed_product]) = [[''a'', ''b'', ''c'']]
   \<and> payload_fields (copy_payload [newlined_product]) = [[''a'', ''b''], [''c'']]
   \<and> insert_subset_data [tabbed_product] = Raised BadCopyFileFormat
   \<and> insert_subset_data [newlined_product] = Raised BadCopyFileFormat
   \<and> (list_all (\<lambda>p. simple (name p) \<and> simple (description p)) products \<longrightarrow>
        (length (payload_lines (copy_payload products)) = length products
           \<and> list_all (\<lambda>l. length (split_on tab l) = 2) (payload_lines (copy_payload products)))
          = list_all (\<lambda>p. plain (name p) \<and> plain (description p)) products
        \<and> (insert_subset_data products = Inserted (map (\<lambda>p. [name p, description p]) products))
          = list_all (\<lambda>p. plain (name p) \<and> plain (description p)) products)"
proof -
  note counts = aligned_counts_iff [of products]
  have necessary: "list_all (\<lambda>p. plain (name p) \<and> plain (description p)) products"
    if "length (payload_lines (copy_payload products)) = length products
        \<and> list_all (\<lambda>l. length (split_on tab l) = 2) (payload_lines (copy_payload products))"
    using that counts by simp
  have store: "(insert_subset_data products = Inserted (map (\<lambda>p. [name p, description p]) products))
          = list_all (\<lambda>p. plain (name p) \<and> plain (description p)) products"
    if "list_all (\<lambda>p. simple (name p) \<and> simple (description p)) products"
    using that by (rule insert_subset_data_aligned)
  from necessary store counts copy_payload_concat [of products]
    tabbed_fields newlined_fields tabbed_raises newlined_raises
  show ?thesis
    by (intro conjI impI) assumption+
qed

theorem copy_payload_alignment_witness:
  "list_all (\<lambda>p. simple (name p) \<and> simple (description p)) [shirt]
   \<and> list_all (\<lambda>p. plain (name p) \<and> plain (description p)) [shirt]
   \<and> length (payload_lines (copy_payload [shirt])) = length [shirt]
   \<and> list_all (\<lambda>l. length (split_on tab l) = 2) (payload_lines (copy_payload [shirt]))
   \<and> insert_subset_data [shirt] = Inserted [[''Shirt'', ''Blue cotton'']]"
proof -
  have s: "list_all (\<lambda>p. simple (name p) \<and> simple (description p)) [shirt]"
    by (simp add: simple_def shirt_def backslash_def carriage_return_def nul_def)
  have p: "list_all (\<lambda>p. plain (name p) \<and> plain (description p)) [shirt]"
    by (simp add: plain_def shirt_def tab_def newline_def)
  note inst = copy_payload_alignment [of "[shirt]"]
  from inst s p have a: "length (payload_lines (copy_payload [shirt])) = length [shirt]
      \<and> list_all (\<lambda>l. length (split_on tab l) = 2) (payload_lines (copy_payload [shirt]))"
    by blast
  from inst s p have b: "insert_subset_data [shirt] = Inserted (map (\<lambda>p. [name p, description p]) [shirt])"
    by blast
  have m: "map (\<lambda>p. [name p, description p]) [shirt] = [[''Shirt'', ''Blue cotton'']]"
    by (simp add: shirt_def)
  from a b m s p show ?thesis
    by (simp only: simp_thms)
qed

end
